theory Spec2Isabelle
  imports Main
begin

section \<open>The Chudnovsky binary-splitting program \<open>pi.c\<close>\<close>

text \<open>
  A shallow embedding of \<^verbatim>\<open>src/pi.c\<close>: the recursive function \<^verbatim>\<open>binary_split\<close>
  and the part of \<^verbatim>\<open>main\<close> that derives the precision budget, distributes the term
  range over worker threads and folds the workers' results.

  \<^item> \<^verbatim>\<open>mpz_t\<close> values are arbitrary-precision integers: HOL's \<open>int\<close>.
  \<^item> The indices \<^verbatim>\<open>a\<close>, \<^verbatim>\<open>b\<close>, \<^verbatim>\<open>m\<close>, \<^verbatim>\<open>decimals\<close>, \<^verbatim>\<open>iterations\<close> are C \<^verbatim>\<open>int\<close>s
    (32 bits, two's complement). They are modelled as \<open>int\<close> with the range written
    out: an \<^verbatim>\<open>int\<close> expression whose mathematical value leaves the range is a signed
    overflow, for which C defines no behaviour (the program as compiled wraps around
    and goes on with a value the source does not determine). The model marks it with
    the fault \<open>SignedOverflow\<close> where the run first depends on the value. In
    \<^verbatim>\<open>binary_split\<close> that is at once: the value is compared, handed to GMP as an
    operand or passed to the recursive call. The precision of line 171 is only
    stored by \<^verbatim>\<open>mpf_set_default_prec\<close>; the run depends on it where the floats are
    initialised, after the engine has returned (lines 185 and 252).
  \<^item> \<^verbatim>\<open>/\<close> on \<^verbatim>\<open>int\<close> truncates towards zero (\<open>c_div\<close>), unlike HOL's \<open>div\<close>.
  \<^item> The \<^verbatim>\<open>_ui\<close> functions of GMP take an \<^verbatim>\<open>unsigned long\<close> (64 bits on the
    platform of the README): an \<^verbatim>\<open>int\<close> argument is converted modulo \<open>2^64\<close>
    (\<open>to_ulong\<close>).
  \<^item> Memory is unbounded: \<^verbatim>\<open>malloc\<close>, \<^verbatim>\<open>pthread_create\<close> and the GMP allocations
    succeed. Timing and the statistics printed on \<^verbatim>\<open>stderr\<close> are left out.
  \<^item> \<^verbatim>\<open>binary_split\<close> need not return (on an empty range it calls itself without
    end, until the stack is exhausted), so it is a \<^theory_text>\<open>partial_function\<close> in the
    option monad: \<open>None\<close> is "does not return", \<open>Some (Inl f)\<close> a fault,
    \<open>Some (Inr t)\<close> the triple written to \<^verbatim>\<open>*res\<close>.
\<close>

subsection \<open>C integers\<close>

text \<open>
  The faults are the points where the program leaves defined behaviour: an \<^verbatim>\<open>int\<close>
  expression out of range (\<open>SignedOverflow\<close>), \<^verbatim>\<open>mpz_divexact_ui\<close> called with a
  divisor that does not divide (\<open>InexactDivision\<close>), and a read of \<^verbatim>\<open>data[0]\<close> when
  there is no worker (\<open>InvalidAccess\<close>).
\<close>

datatype fault = SignedOverflow | InexactDivision | InvalidAccess

definition c_int_ok :: "int \<Rightarrow> bool" where
  "c_int_ok x = (- 2147483648 \<le> x \<and> x \<le> 2147483647)"

definition c_div :: "int \<Rightarrow> int \<Rightarrow> int" where
  "c_div x y = sgn x * sgn y * (\<bar>x\<bar> div \<bar>y\<bar>)"

definition to_ulong :: "int \<Rightarrow> int" where
  "to_ulong x = x mod 18446744073709551616"

subsection \<open>The PQT triple (\<^verbatim>\<open>pqt_t\<close>)\<close>

record pqt_t =
  P :: int
  Q :: int
  T :: int

subsection \<open>\<^verbatim>\<open>binary_split\<close>: the base case (lines 58 to 91)\<close>

text \<open>
  \<open>leaf_P\<close>, \<open>leaf_Q_numer\<close>, \<open>leaf_Q\<close> and \<open>leaf_T\<close> are the values the \<^verbatim>\<open>mpz\<close> calls of
  the base case leave in \<^verbatim>\<open>res->P\<close>, in \<^verbatim>\<open>res->Q\<close> before and after
  \<^verbatim>\<open>mpz_divexact_ui\<close>, and in \<^verbatim>\<open>res->T\<close>. \<^verbatim>\<open>mpz_divexact_ui\<close> is specified only
  for a dividend that the divisor divides: otherwise the model stops with
  \<open>InexactDivision\<close>.
\<close>

definition leaf_P :: "int \<Rightarrow> int" where
  "leaf_P a =
     (if a = 0 then 1
      else - (to_ulong (6 * a - 5) * to_ulong (2 * a - 1) * to_ulong (6 * a - 1)))"

definition leaf_Q_numer :: "int \<Rightarrow> int" where
  "leaf_Q_numer a = (to_ulong a) ^ 3 * 640320 * 640320 * 640320"

definition mpz_divexact_ui :: "int \<Rightarrow> int \<Rightarrow> fault + int" where
  "mpz_divexact_ui n d = (if d dvd n then Inr (n div d) else Inl InexactDivision)"

definition leaf_Q :: "int \<Rightarrow> fault + int" where
  "leaf_Q a = (if a = 0 then Inr 1 else mpz_divexact_ui (leaf_Q_numer a) 24)"

definition leaf_T :: "int \<Rightarrow> int" where
  "leaf_T a = leaf_P a * (545140134 * to_ulong a + 13591409)"

definition binary_split_leaf :: "int \<Rightarrow> fault + pqt_t" where
  "binary_split_leaf a =
     (if a \<noteq> 0 \<and>
         \<not> (c_int_ok (6 * a) \<and> c_int_ok (6 * a - 5) \<and> c_int_ok (2 * a) \<and>
            c_int_ok (2 * a - 1) \<and> c_int_ok (6 * a - 1))
      then Inl SignedOverflow
      else case leaf_Q a of
             Inl e \<Rightarrow> Inl e
           | Inr q \<Rightarrow> Inr \<lparr>P = leaf_P a, Q = q, T = leaf_T a\<rparr>)"

subsection \<open>\<^verbatim>\<open>binary_split\<close>: the combination (lines 104 to 118)\<close>

definition binary_split_combine :: "pqt_t \<Rightarrow> pqt_t \<Rightarrow> pqt_t" where
  "binary_split_combine left right =
     \<lparr>P = P left * P right,
      Q = Q left * Q right,
      T = Q right * T left + P left * T right\<rparr>"

subsection \<open>\<^verbatim>\<open>binary_split\<close> (lines 56 to 125)\<close>

partial_function (option) binary_split :: "int \<Rightarrow> int \<Rightarrow> (fault + pqt_t) option" where
  "binary_split a b =
     (if \<not> c_int_ok (b - a) then Some (Inl SignedOverflow)
      else if b - a = 1 then Some (binary_split_leaf a)
      else if \<not> c_int_ok (a + b) then Some (Inl SignedOverflow)
      else
        (let m = c_div (a + b) 2 in
         Option.bind (binary_split a m) (\<lambda>l.
           case l of
             Inl e \<Rightarrow> Some (Inl e)
           | Inr left \<Rightarrow>
               Option.bind (binary_split m b) (\<lambda>r.
                 case r of
                   Inl e \<Rightarrow> Some (Inl e)
                 | Inr right \<Rightarrow> Some (Inr (binary_split_combine left right))))))"

declare binary_split.simps [code]

subsection \<open>\<^verbatim>\<open>main\<close>: options (lines 135 to 164)\<close>

text \<open>
  \<^verbatim>\<open>getopt\<close> and \<^verbatim>\<open>atoi\<close> belong to the C library: the model starts from the list of
  options \<^verbatim>\<open>getopt\<close> returns, each numeric argument already converted by \<^verbatim>\<open>atoi\<close>.
  \<open>Inl\<close> is the exit status of a run that prints the help text and stops.
\<close>

record config =
  decimals :: int
  num_threads :: int
  show_stats :: bool
  quiet_mode :: bool


definition default_config :: config where
  "default_config =
     \<lparr>decimals = 1000, num_threads = 1, show_stats = False, quiet_mode = False\<rparr>"


subsection \<open>\<^verbatim>\<open>main\<close>: the precision budget (lines 170 to 174)\<close>

text \<open>
  \<open>prec\<close> is the argument \<^verbatim>\<open>mpf_set_default_prec\<close> receives (an \<^verbatim>\<open>unsigned long\<close>),
  \<open>iterations\<close> the number of series terms.
\<close>

record budget =
  prec :: int
  iterations :: int

definition precision_budget :: "int \<Rightarrow> fault + budget" where
  "precision_budget d =
     (if \<not> (c_int_ok (d + 100) \<and> c_int_ok ((d + 100) * 4) \<and> c_int_ok (c_div d 14 + 10))
      then Inl SignedOverflow
      else Inr \<lparr>prec = to_ulong ((d + 100) * 4), iterations = c_div d 14 + 10\<rparr>)"

text \<open>
  Line 174 alone, the number of terms the engine is called with: for a \<^verbatim>\<open>decimals\<close>
  that is an \<^verbatim>\<open>int\<close> this expression never overflows (lemma \<open>term_count_in_int\<close>).
\<close>

definition term_count :: "int \<Rightarrow> int" where
  "term_count d = c_div d 14 + 10"

subsection \<open>\<^verbatim>\<open>main\<close>: the worker ranges (lines 206 to 219)\<close>

text \<open>
  \<open>worker_range n w chunk i\<close> is the pair \<^verbatim>\<open>(data[i].a, data[i].b)\<close> for
  \<^verbatim>\<open>iterations = n\<close> and \<^verbatim>\<open>num_threads = w\<close>; \<open>worker_ranges\<close> runs the loop over
  \<^verbatim>\<open>i = 0, ..., num_threads - 1\<close>. The option loop leaves \<^verbatim>\<open>num_threads\<close> at 1 or
  above, so the division is by a positive number.
\<close>

definition worker_range :: "int \<Rightarrow> int \<Rightarrow> int \<Rightarrow> int \<Rightarrow> int \<times> int" where
  "worker_range n w chunk i = (i * chunk, if i = w - 1 then n else (i + 1) * chunk)"

definition worker_ranges :: "int \<Rightarrow> int \<Rightarrow> (int \<times> int) list" where
  "worker_ranges n w =
     (let chunk = c_div n w in map (worker_range n w chunk) [0..w - 1])"

subsection \<open>\<^verbatim>\<open>main\<close>: running and joining the workers (lines 128 to 132, 221 to 248)\<close>

text \<open>
  Each thread calls \<^verbatim>\<open>binary_split\<close> on its own range and its own triple; the threads
  share no data, so the result of each is the result of the call. A thread that
  does not return, or that faults, takes the run with it.
\<close>

fun run_workers :: "(int \<times> int) list \<Rightarrow> (fault + pqt_t list) option" where
  "run_workers [] = Some (Inr [])"
| "run_workers ((a, b) # rs) =
     (case binary_split a b of
        None \<Rightarrow> None
      | Some (Inl e) \<Rightarrow> Some (Inl e)
      | Some (Inr x) \<Rightarrow>
          (case run_workers rs of
             None \<Rightarrow> None
           | Some (Inl e) \<Rightarrow> Some (Inl e)
           | Some (Inr xs) \<Rightarrow> Some (Inr (x # xs))))"

text \<open>
  One round of the aggregation loop: \<open>final\<close> updated with \<^verbatim>\<open>data[i].result\<close>, the
  assignments in the order of the source. \<open>aggregate\<close> starts from \<^verbatim>\<open>data[0].result\<close>
  and runs the rounds for \<^verbatim>\<open>i = 1, ..., num_threads - 1\<close>; with no worker at all
  (which the option loop excludes) there is no \<^verbatim>\<open>data[0]\<close> to read.
\<close>

definition aggregate_step :: "pqt_t \<Rightarrow> pqt_t \<Rightarrow> pqt_t" where
  "aggregate_step final d =
     (let temp = Q d * T final;
          final_T = P final * T d;
          final_T = final_T + temp;
          final_P = P final * P d;
          final_Q = Q final * Q d
      in \<lparr>P = final_P, Q = final_Q, T = final_T\<rparr>)"

definition aggregate :: "pqt_t list \<Rightarrow> fault + pqt_t" where
  "aggregate rs =
     (case rs of [] \<Rightarrow> Inl InvalidAccess | r # rest \<Rightarrow> Inr (foldl aggregate_step r rest))"

subsection \<open>\<^verbatim>\<open>main\<close>: the aggregate triple and the output (lines 170 to 272)\<close>

text \<open>
  The engine runs first: \<^verbatim>\<open>binary_split(0, iterations)\<close> with one thread, the workers
  and the aggregation loop otherwise. The run then initialises the floats with the
  precision of the budget and ends with the budget and the aggregate triple.
\<close>

definition compute_pqt :: "config \<Rightarrow> (fault + budget \<times> pqt_t) option" where
  "compute_pqt c =
     (case (if num_threads c = 1 then binary_split 0 (term_count (decimals c))
            else
              (case run_workers (worker_ranges (term_count (decimals c)) (num_threads c)) of
                 None \<Rightarrow> None
               | Some (Inl e) \<Rightarrow> Some (Inl e)
               | Some (Inr rs) \<Rightarrow> Some (aggregate rs))) of
        None \<Rightarrow> None
      | Some (Inl e) \<Rightarrow> Some (Inl e)
      | Some (Inr final) \<Rightarrow>
          (case precision_budget (decimals c) of
             Inl e \<Rightarrow> Some (Inl e)
           | Inr bud \<Rightarrow> Some (Inr (bud, final))))"

text \<open>
  The value \<open>426880 * sqrt 10005 * Q / T\<close> is computed and printed by GMP
  (\<^verbatim>\<open>mpf_sqrt_ui\<close>, \<^verbatim>\<open>mpf_mul\<close>, \<^verbatim>\<open>mpf_div\<close>, \<^verbatim>\<open>gmp_printf\<close>), which is not part of the
  repository: \<open>render prec decimals q t\<close> stands for the string these calls produce
  at default precision \<open>prec\<close> from \<open>Q = q\<close> and \<open>T = t\<close>. Both branches of \<^verbatim>\<open>main\<close>
  make the same calls. In quiet mode nothing is printed.
\<close>

definition main_output ::
  "(int \<Rightarrow> int \<Rightarrow> int \<Rightarrow> int \<Rightarrow> string) \<Rightarrow> config \<Rightarrow> (fault + string option) option" where
  "main_output render c =
     (case compute_pqt c of
        None \<Rightarrow> None
      | Some (Inl e) \<Rightarrow> Some (Inl e)
      | Some (Inr (bud, final)) \<Rightarrow>
          Some (Inr (if quiet_mode c then None
                     else Some (render (prec bud) (decimals c) (Q final) (T final)))))"

subsection \<open>Auxiliary definitions for the proofs\<close>

text \<open>
  These three definitions are not code of the program. \<open>leaf_pqt a\<close> is the triple
  the base case writes when none of its \<^verbatim>\<open>int\<close> expressions overflows; \<open>chain a n\<close>
  combines the \<open>n + 1\<close> triples of the indices \<open>a, ..., a + n\<close> one by one from the
  left; \<open>contiguous a rs b\<close> says that the list \<open>rs\<close> of ranges cuts \<open>[a, b)\<close> into
  adjacent non-empty pieces, in order.
\<close>

definition leaf_pqt :: "int \<Rightarrow> pqt_t" where
  "leaf_pqt a =
     \<lparr>P = leaf_P a, Q = (if a = 0 then 1 else leaf_Q_numer a div 24), T = leaf_T a\<rparr>"

fun chain :: "int \<Rightarrow> nat \<Rightarrow> pqt_t" where
  "chain a 0 = leaf_pqt a"
| "chain a (Suc n) = binary_split_combine (chain a n) (leaf_pqt (a + int n + 1))"

fun contiguous :: "int \<Rightarrow> (int \<times> int) list \<Rightarrow> int \<Rightarrow> bool" where
  "contiguous a [] b = (a = b)"
| "contiguous a ((x, y) # rs) b = (x = a \<and> a < y \<and> contiguous y rs b)"

section \<open>Properties of \<^verbatim>\<open>binary_split\<close>\<close>

subsection \<open>The base case\<close>

lemma leaf_Q_numer_dvd: "24 dvd leaf_Q_numer a"
proof -
  have "(24::int) dvd 640320" by simp
  then show ?thesis unfolding leaf_Q_numer_def by simp
qed

lemma binary_split_leaf_ok:
  assumes "0 \<le> a" "a \<le> 357913941"
  shows "binary_split_leaf a = Inr (leaf_pqt a)"
  using assms leaf_Q_numer_dvd [of a]
  by (simp add: binary_split_leaf_def leaf_Q_def mpz_divexact_ui_def leaf_pqt_def c_int_ok_def)

subsection \<open>The combination is associative\<close>

lemma binary_split_combine_assoc:
  "binary_split_combine (binary_split_combine x y) z =
   binary_split_combine x (binary_split_combine y z)"
  by (simp add: binary_split_combine_def algebra_simps)

lemma chain_append:
  "chain a (n + k + 1) = binary_split_combine (chain a n) (chain (a + int n + 1) k)"
proof (induction k)
  case 0
  show ?case by simp
next
  case (Suc k)
  have "chain a (n + Suc k + 1) =
        binary_split_combine (chain a (n + k + 1)) (leaf_pqt (a + int (n + k + 1) + 1))"
    by simp
  also have "\<dots> = binary_split_combine (chain a n)
        (binary_split_combine (chain (a + int n + 1) k) (leaf_pqt (a + int (n + k + 1) + 1)))"
    by (simp only: Suc.IH binary_split_combine_assoc)
  also have "a + int (n + k + 1) + 1 = (a + int n + 1) + int k + 1" by simp
  finally show ?case by simp
qed

subsection \<open>Every range inside the \<^verbatim>\<open>int\<close> bound yields the chain of its terms\<close>

lemma c_div_2_nonneg: "0 \<le> x \<Longrightarrow> c_div x 2 = x div 2"
  by (simp add: c_div_def sgn_if)

lemma binary_split_chain:
  "0 \<le> a \<Longrightarrow> a < b \<Longrightarrow> b \<le> 357913942 \<Longrightarrow>
   binary_split a b = Some (Inr (chain a (nat (b - a - 1))))"
proof (induction "nat (b - a)" arbitrary: a b rule: less_induct)
  case less
  show ?case
  proof (cases "b - a = 1")
    case True
    then have b: "b = a + 1" by simp
    from less.prems have "a \<le> 357913941" using b by simp
    with less.prems show ?thesis
      by (subst binary_split.simps) (simp add: b c_int_ok_def binary_split_leaf_ok)
  next
    case False
    define m where "m = (a + b) div 2"
    from False less.prems have am: "a < m" and mb: "m < b" and m0: "0 \<le> m"
      unfolding m_def by linarith+
    have cm: "c_div (a + b) 2 = m"
      using less.prems by (simp add: m_def c_div_2_nonneg)
    have l: "binary_split a m = Some (Inr (chain a (nat (m - a - 1))))"
      using less.prems am mb by (intro less.hyps) simp_all
    have r: "binary_split m b = Some (Inr (chain m (nat (b - m - 1))))"
      using less.prems am mb m0 by (intro less.hyps) simp_all
    have n: "nat (b - a - 1) = nat (m - a - 1) + nat (b - m - 1) + 1"
      using am mb by simp
    have m': "a + int (nat (m - a - 1)) + 1 = m" using am by simp
    have ok: "c_int_ok (b - a)" "c_int_ok (a + b)"
      using less.prems by (simp_all add: c_int_ok_def)
    have "binary_split_combine (chain a (nat (m - a - 1))) (chain m (nat (b - m - 1))) =
          chain a (nat (b - a - 1))"
      using chain_append [of a "nat (m - a - 1)" "nat (b - m - 1)"] by (simp only: n m')
    then show ?thesis
      by (subst binary_split.simps) (simp add: ok False cm l r del: chain.simps)
  qed
qed

subsection \<open>An empty range starting at 0 never returns\<close>

lemma binary_split_empty_diverges_aux:
  assumes "binary_split a b = Some y"
  shows "\<not> (a = 0 \<and> - 2147483648 \<le> b \<and> b \<le> 0)"
proof (rule binary_split.raw_induct
         [where P = "\<lambda>a b y. \<not> (a = 0 \<and> - 2147483648 \<le> b \<and> b \<le> 0)", OF _ assms])
  fix f :: "int \<Rightarrow> int \<Rightarrow> (fault + pqt_t) option" and a b :: int and y
  assume IH: "\<And>a b y. f a b = Some y \<Longrightarrow> \<not> (a = 0 \<and> - 2147483648 \<le> b \<and> b \<le> 0)"
  assume step:
    "(if \<not> c_int_ok (b - a) then Some (Inl SignedOverflow)
      else if b - a = 1 then Some (binary_split_leaf a)
      else if \<not> c_int_ok (a + b) then Some (Inl SignedOverflow)
      else
        (let m = c_div (a + b) 2 in
         Option.bind (f a m) (\<lambda>l.
           case l of
             Inl e \<Rightarrow> Some (Inl e)
           | Inr left \<Rightarrow>
               Option.bind (f m b) (\<lambda>r.
                 case r of
                   Inl e \<Rightarrow> Some (Inl e)
                 | Inr right \<Rightarrow> Some (Inr (binary_split_combine left right)))))) = Some y"
  show "\<not> (a = 0 \<and> - 2147483648 \<le> b \<and> b \<le> 0)"
  proof
    assume h: "a = 0 \<and> - 2147483648 \<le> b \<and> b \<le> 0"
    then have ok: "c_int_ok (b - a)" "c_int_ok (a + b)" "b - a \<noteq> 1"
      by (simp_all add: c_int_ok_def)
    have m: "- 2147483648 \<le> c_div (a + b) 2 \<and> c_div (a + b) 2 \<le> 0"
      using h unfolding c_div_def by (auto simp: sgn_if)
    from step ok obtain l where "f a (c_div (a + b) 2) = Some l"
      by (auto simp: Let_def bind_eq_Some_conv)
    from IH [OF this] h m show False by simp
  qed
qed

lemma binary_split_empty_diverges:
  "- 2147483648 \<le> n \<Longrightarrow> n \<le> 0 \<Longrightarrow> binary_split 0 n = None"
  using binary_split_empty_diverges_aux [of 0 n] by (cases "binary_split 0 n") auto

subsection \<open>The base case inside the bound, in closed form\<close>

lemma to_ulong_id: "0 \<le> x \<Longrightarrow> x < 18446744073709551616 \<Longrightarrow> to_ulong x = x"
  by (simp add: to_ulong_def)

lemma leaf_pqt_0: "leaf_pqt 0 = \<lparr>P = 1, Q = 1, T = 13591409\<rparr>"
  by (simp add: leaf_pqt_def leaf_P_def leaf_T_def to_ulong_def)

lemma leaf_pqt_pos:
  assumes "1 \<le> k" "k \<le> 357913941"
  shows "leaf_pqt k =
     \<lparr>P = - ((6 * k - 5) * (2 * k - 1) * (6 * k - 1)),
      Q = 640320 ^ 3 * k ^ 3 div 24,
      T = - ((6 * k - 5) * (2 * k - 1) * (6 * k - 1)) * (13591409 + 545140134 * k)\<rparr>"
proof -
  have u: "to_ulong k = k" "to_ulong (6 * k - 5) = 6 * k - 5"
    "to_ulong (2 * k - 1) = 2 * k - 1" "to_ulong (6 * k - 1) = 6 * k - 1"
    using assms by (simp_all add: to_ulong_id)
  have n: "leaf_Q_numer k = 640320 ^ 3 * k ^ 3"
    by (simp add: leaf_Q_numer_def u power3_eq_cube)
  from assms show ?thesis
    by (simp add: leaf_pqt_def leaf_P_def leaf_T_def u n add.commute)
qed

lemma leaf_Q_value:
  "640320 ^ 3 * k ^ 3 div 24 = 10939058860032000 * (k::int) ^ 3"
proof -
  have "(640320::int) ^ 3 * k ^ 3 = 24 * (10939058860032000 * k ^ 3)" by simp
  then show ?thesis by simp
qed

lemma leaf_P_bound:
  assumes "1 \<le> (k::int)"
  shows "0 < (6 * k - 5) * (2 * k - 1) * (6 * k - 1)"
    and "4 * ((6 * k - 5) * (2 * k - 1) * (6 * k - 1)) \<le> 10939058860032000 * k ^ 3"
proof -
  from assms show "0 < (6 * k - 5) * (2 * k - 1) * (6 * k - 1)" by simp
  have "(6 * k - 5) * (2 * k - 1) \<le> (6 * k) * (2 * k)"
    using assms by (intro mult_mono) simp_all
  then have "(6 * k - 5) * (2 * k - 1) * (6 * k - 1) \<le> (6 * k) * (2 * k) * (6 * k)"
    using assms by (intro mult_mono) simp_all
  also have "\<dots> = 72 * k ^ 3" by (simp add: power3_eq_cube)
  finally have "(6 * k - 5) * (2 * k - 1) * (6 * k - 1) \<le> 72 * k ^ 3" .
  moreover have "0 \<le> k ^ 3" using assms by simp
  ultimately show "4 * ((6 * k - 5) * (2 * k - 1) * (6 * k - 1)) \<le> 10939058860032000 * k ^ 3"
    by linarith
qed

subsection \<open>Some calls evaluated\<close>

lemma binary_split_0_1: "binary_split 0 1 = Some (Inr \<lparr>P = 1, Q = 1, T = 13591409\<rparr>)"
  by (subst binary_split.simps)
     (simp add: c_int_ok_def binary_split_leaf_def leaf_Q_def leaf_P_def leaf_T_def to_ulong_def)

lemma binary_split_1_2:
  "binary_split 1 2 = Some (Inr \<lparr>P = - 5, Q = 10939058860032000, T = - 2793657715\<rparr>)"
  by (subst binary_split.simps)
     (simp add: c_int_ok_def binary_split_leaf_def leaf_Q_def leaf_P_def leaf_T_def to_ulong_def
        leaf_Q_numer_def mpz_divexact_ui_def)

lemma binary_split_2_3:
  "binary_split 2 3 = Some (Inr \<lparr>P = - 231, Q = 87512470880256000, T = - 254994357387\<rparr>)"
  by (subst binary_split.simps)
     (simp add: c_int_ok_def binary_split_leaf_def leaf_Q_def leaf_P_def leaf_T_def to_ulong_def
        leaf_Q_numer_def mpz_divexact_ui_def)

lemma binary_split_0_2:
  "binary_split 0 2 =
     Some (Inr \<lparr>P = - 5, Q = 10939058860032000, T = 148677223041765871430285\<rparr>)"
  by (subst binary_split.simps)
     (simp add: c_int_ok_def c_div_def binary_split_0_1 binary_split_1_2 binary_split_combine_def)

lemma binary_split_1_3:
  "binary_split 1 3 =
     Some (Inr \<lparr>P = 1155, Q = 957304069945956794936328192000000,
                T = - 244479889433338740603253065\<rparr>)"
  by (subst binary_split.simps)
     (simp add: c_int_ok_def c_div_def binary_split_1_2 binary_split_2_3 binary_split_combine_def)

subsection \<open>Signs of a range that starts after the first term\<close>

text \<open>
  Each term of index \<open>k \<ge> 1\<close> has \<open>P < 0 < Q\<close> and \<open>4 * \<bar>P\<bar> \<le> Q\<close>, and the coefficient
  \<open>13591409 + 545140134 * k\<close> less than doubles from one index to the next. So the
  summand of the first index dominates \<open>T\<close>: \<open>T\<close> stays negative, while the sign
  of \<open>P\<close> alternates with the number of terms.
\<close>

lemma combine_sign_step:
  fixes q A A' p P0 T0 :: int
  assumes q: "0 < q" and A: "0 < A" and A': "A' \<le> 2 * A"
    and pq: "4 * \<bar>p\<bar> \<le> q" and IH: "\<bar>P0\<bar> * A \<le> 2 * (- T0)"
  shows "\<bar>P0 * p\<bar> * A' \<le> 2 * (- (q * T0 + P0 * (p * A)))"
proof -
  define x where "x = \<bar>P0\<bar>"
  define y where "y = \<bar>p\<bar>"
  have x0: "0 \<le> x" and y0: "0 \<le> y" by (simp_all add: x_def y_def)
  have xyA: "0 \<le> x * y * A" using x0 y0 A by simp
  have 1: "P0 * (p * A) \<le> x * y * A"
  proof -
    have "P0 * p \<le> \<bar>P0 * p\<bar>" by simp
    also have "\<dots> = x * y" by (simp add: x_def y_def abs_mult)
    finally have "P0 * p * A \<le> x * y * A" using A by (intro mult_right_mono) simp_all
    then show ?thesis by (simp add: mult.assoc)
  qed
  have 2: "q * (x * A) \<le> q * (2 * (- T0))"
    using IH q unfolding x_def by (intro mult_left_mono) simp_all
  have 3: "(4 * y) * (x * A) \<le> q * (x * A)"
    using pq x0 A unfolding y_def by (intro mult_right_mono) simp_all
  have 4: "x * y * A' \<le> x * y * (2 * A)"
    using A' x0 y0 by (intro mult_left_mono) simp_all
  have "\<bar>P0 * p\<bar> * A' = x * y * A'" by (simp add: x_def y_def abs_mult)
  also have "\<dots> \<le> 2 * (x * y * A)" using 4 by (simp add: algebra_simps)
  also have "\<dots> = 4 * (x * y * A) - 2 * (x * y * A)" by simp
  also have "\<dots> \<le> q * (x * A) - 2 * (x * y * A)"
    using 3 by (simp add: algebra_simps)
  also have "\<dots> \<le> q * (2 * (- T0)) - 2 * (P0 * (p * A))"
    using 1 2 by linarith
  also have "\<dots> = 2 * (- (q * T0 + P0 * (p * A)))" by (simp add: algebra_simps)
  finally show ?thesis .
qed

lemma chain_signs:
  "1 \<le> a \<Longrightarrow> a + int n \<le> 357913941 \<Longrightarrow>
   0 < Q (chain a n) \<and>
   (even n \<longrightarrow> P (chain a n) < 0) \<and>
   (odd n \<longrightarrow> 0 < P (chain a n)) \<and>
   \<bar>P (chain a n)\<bar> * (13591409 + 545140134 * (a + int n + 1)) \<le> 2 * (- T (chain a n))"
proof (induction n)
  case 0
  define p where "p = (6 * a - 5) * (2 * a - 1) * (6 * a - 1)"
  have p: "0 < p" using leaf_P_bound(1) [of a] 0 by (simp add: p_def)
  have l: "leaf_pqt a =
     \<lparr>P = - p, Q = 10939058860032000 * a ^ 3, T = - p * (13591409 + 545140134 * a)\<rparr>"
    using leaf_pqt_pos [of a] 0 by (simp add: leaf_Q_value p_def)
  have "p * (13591409 + 545140134 * (a + 1)) \<le> 2 * (p * (13591409 + 545140134 * a))"
  proof -
    have "13591409 + 545140134 * (a + 1) \<le> 2 * (13591409 + 545140134 * a)"
      using 0 by simp
    then have "p * (13591409 + 545140134 * (a + 1)) \<le> p * (2 * (13591409 + 545140134 * a))"
      using p by (intro mult_left_mono) simp_all
    also have "\<dots> = 2 * (p * (13591409 + 545140134 * a))"
      by (rule mult.left_commute)
    finally show ?thesis .
  qed
  with p 0 show ?case by (simp add: l)
next
  case (Suc n)
  define k where "k = a + int n + 1"
  define p where "p = (6 * k - 5) * (2 * k - 1) * (6 * k - 1)"
  define t where "t = chain a n"
  have k: "1 \<le> k" "k \<le> 357913941" using Suc.prems by (simp_all add: k_def)
  have p: "0 < p" "4 * p \<le> 10939058860032000 * k ^ 3"
    using leaf_P_bound [OF k(1)] by (simp_all add: p_def)
  have l: "leaf_pqt k =
     \<lparr>P = - p, Q = 10939058860032000 * k ^ 3, T = - p * (13591409 + 545140134 * k)\<rparr>"
    using leaf_pqt_pos [OF k] by (simp add: leaf_Q_value p_def)
  have IH: "0 < Q t" "even n \<longrightarrow> P t < 0" "odd n \<longrightarrow> 0 < P t"
    "\<bar>P t\<bar> * (13591409 + 545140134 * k) \<le> 2 * (- T t)"
    using Suc.IH Suc.prems by (simp_all add: t_def k_def)
  have "chain a (Suc n) = binary_split_combine t (leaf_pqt k)"
    by (simp add: t_def k_def)
  then have c: "chain a (Suc n) =
     \<lparr>P = P t * - p, Q = Q t * (10939058860032000 * k ^ 3),
      T = 10939058860032000 * k ^ 3 * T t + P t * (- p * (13591409 + 545140134 * k))\<rparr>"
    by (simp only: binary_split_combine_def l pqt_t.simps)
  have q: "0 < 10939058860032000 * k ^ 3" using k by simp
  have s: "\<bar>P t * - p\<bar> * (13591409 + 545140134 * (k + 1)) \<le>
        2 * (- (10939058860032000 * k ^ 3 * T t + P t * (- p * (13591409 + 545140134 * k))))"
    using k p IH(4) q by (intro combine_sign_step) simp_all
  have Q: "0 < Q t * (10939058860032000 * k ^ 3)" using IH(1) q by (rule mult_pos_pos)
  have Pe: "even (Suc n) \<longrightarrow> P t * - p < 0"
    using IH(3) p(1) by (auto simp: mult_less_0_iff zero_less_mult_iff)
  have Po: "odd (Suc n) \<longrightarrow> 0 < P t * - p"
    using IH(2) p(1) by (auto simp: mult_less_0_iff zero_less_mult_iff)
  have k': "a + int (Suc n) + 1 = k + 1" by (simp add: k_def)
  from Q Pe Po s show ?case unfolding c k' by simp
qed

lemma chain_T_neg:
  assumes "1 \<le> a" "a + int n \<le> 357913941"
  shows "T (chain a n) < 0"
proof -
  from chain_signs [OF assms] have
    P: "P (chain a n) \<noteq> 0" and
    b: "\<bar>P (chain a n)\<bar> * (13591409 + 545140134 * (a + int n + 1)) \<le> 2 * (- T (chain a n))"
    by (cases "even n"; simp)+
  have "0 < \<bar>P (chain a n)\<bar> * (13591409 + 545140134 * (a + int n + 1))"
    using P assms by (intro mult_pos_pos) simp_all
  with b show ?thesis by linarith
qed

section \<open>Properties of the work distribution in \<^verbatim>\<open>main\<close>\<close>

text \<open>
  The \<^verbatim>\<open>int\<close> expressions of the loop that fills \<^verbatim>\<open>data\<close> stay between 0 and
  \<^verbatim>\<open>iterations\<close>: none overflows, which is why \<open>worker_range\<close> computes them
  without a check.
\<close>

lemma worker_range_in_int:
  assumes n: "c_int_ok n" and w: "c_int_ok w" "1 \<le> w" and i: "0 \<le> i" "i < w"
  shows "c_int_ok (c_div n w)" and "c_int_ok (w - 1)" and "c_int_ok (i * c_div n w)"
    and "c_int_ok (i + 1)" and "c_int_ok ((i + 1) * c_div n w)"
proof -
  define q where "q = \<bar>n\<bar> div w"
  have q0: "0 \<le> q" using w by (simp add: q_def pos_imp_zdiv_nonneg_iff)
  have "w * q + \<bar>n\<bar> mod w = \<bar>n\<bar>" by (simp add: q_def)
  moreover have "0 \<le> \<bar>n\<bar> mod w" using w by simp
  ultimately have wq: "w * q \<le> \<bar>n\<bar>" by linarith
  have c: "c_div n w = sgn n * q" using w by (simp add: c_div_def q_def sgn_if)
  have b: "j * q \<le> \<bar>n\<bar>" if "0 \<le> j" "j \<le> w" for j
  proof -
    have "j * q \<le> w * q" using that q0 by (intro mult_right_mono) simp_all
    with wq show ?thesis by simp
  qed
  have r: "c_int_ok (j * c_div n w)" if j: "0 \<le> j" "j \<le> w" for j
  proof (cases "0 \<le> n")
    case True
    have "0 \<le> j * q" using j q0 by simp
    moreover have "j * (sgn n * q) = j * q \<or> j * (sgn n * q) = 0"
      using True by (auto simp: sgn_if)
    ultimately show ?thesis
      using b [OF j] True n unfolding c c_int_ok_def by auto
  next
    case False
    then have "j * (sgn n * q) = - (j * q)" by (simp add: sgn_if)
    moreover have "0 \<le> j * q" using j q0 by simp
    ultimately show ?thesis
      using b [OF j] False n unfolding c c_int_ok_def by auto
  qed
  show "c_int_ok (i * c_div n w)" using i by (intro r) simp_all
  show "c_int_ok ((i + 1) * c_div n w)" using i by (intro r) simp_all
  show "c_int_ok (w - 1)" using w by (simp add: c_int_ok_def)
  show "c_int_ok (i + 1)" using w i by (simp add: c_int_ok_def)
  show "c_int_ok (c_div n w)" using r [of 1] w by simp
qed

lemma c_div_pos: "0 \<le> x \<Longrightarrow> 0 < y \<Longrightarrow> c_div x y = x div y"
  by (simp add: c_div_def sgn_if)

lemma aggregate_step_combine: "aggregate_step final d = binary_split_combine final d"
  by (simp add: aggregate_step_def binary_split_combine_def Let_def)

lemma contiguous_le: "contiguous a rs b \<Longrightarrow> a \<le> b"
proof (induction rs arbitrary: a)
  case Nil
  then show ?case by simp
next
  case (Cons r rs)
  obtain x y where r: "r = (x, y)" by (cases r)
  from Cons.prems have "a < y" "contiguous y rs b" by (simp_all add: r)
  with Cons.IH [of y] show ?case by simp
qed

lemma run_workers_contiguous:
  "0 \<le> a \<Longrightarrow> contiguous a rs b \<Longrightarrow> b \<le> 357913942 \<Longrightarrow>
   run_workers rs = Some (Inr (map (\<lambda>(x, y). chain x (nat (y - x - 1))) rs))"
proof (induction rs arbitrary: a)
  case Nil
  then show ?case by simp
next
  case (Cons r rs)
  obtain x y where r: "r = (x, y)" by (cases r)
  from Cons.prems have c: "x = a" "a < y" "contiguous y rs b" by (simp_all add: r)
  from contiguous_le [OF c(3)] Cons.prems have y: "y \<le> 357913942" by simp
  have 1: "binary_split a y = Some (Inr (chain a (nat (y - a - 1))))"
    using Cons.prems(1) c(2) y by (rule binary_split_chain)
  have 2: "run_workers rs = Some (Inr (map (\<lambda>(x, y). chain x (nat (y - x - 1))) rs))"
    using c Cons.prems by (intro Cons.IH [of y]) simp_all
  show ?case by (simp add: r c(1) 1 2)
qed

lemma foldl_chain:
  "contiguous y rs b \<Longrightarrow> a < y \<Longrightarrow>
   foldl aggregate_step (chain a (nat (y - a - 1)))
     (map (\<lambda>(x, y). chain x (nat (y - x - 1))) rs) = chain a (nat (b - a - 1))"
proof (induction rs arbitrary: y)
  case Nil
  then show ?case by simp
next
  case (Cons r rs)
  obtain x z where r: "r = (x, z)" by (cases r)
  from Cons.prems have c: "x = y" "y < z" "contiguous z rs b" by (simp_all add: r)
  have n: "nat (z - a - 1) = nat (y - a - 1) + nat (z - y - 1) + 1"
    using c Cons.prems by simp
  have m: "a + int (nat (y - a - 1)) + 1 = y" using Cons.prems by simp
  have s: "aggregate_step (chain a (nat (y - a - 1))) (chain y (nat (z - y - 1))) =
        chain a (nat (z - a - 1))"
    using chain_append [of a "nat (y - a - 1)" "nat (z - y - 1)"]
    by (simp only: n m aggregate_step_combine)
  have "a < z" using c Cons.prems by simp
  from Cons.IH [OF c(3) this] show ?case
    by (simp add: r c(1) s del: chain.simps)
qed

lemma aggregate_contiguous:
  assumes "contiguous a rs b" "a < b"
  shows "aggregate (map (\<lambda>(x, y). chain x (nat (y - x - 1))) rs) =
         Inr (chain a (nat (b - a - 1)))"
proof (cases rs)
  case Nil
  with assms show ?thesis by simp
next
  case (Cons r rest)
  obtain x y where r: "r = (x, y)" by (cases r)
  from assms have c: "x = a" "a < y" "contiguous y rest b" by (simp_all add: Cons r)
  from foldl_chain [OF c(3) c(2)] show ?thesis
    by (simp add: aggregate_def Cons r c(1) del: chain.simps)
qed

text \<open>
  With at most as many threads as terms, the ranges of the workers cut \<open>[0, n)\<close> into
  adjacent non-empty pieces.
\<close>

lemma worker_ranges_contiguous_aux:
  "1 \<le> chunk \<Longrightarrow> (w - 1) * chunk < n \<Longrightarrow> 0 \<le> i \<Longrightarrow> i \<le> w - 1 \<Longrightarrow>
   contiguous (i * chunk) (map (worker_range n w chunk) [i..w - 1]) n"
proof (induction "nat (w - 1 - i)" arbitrary: i)
  case 0
  then have i: "i = w - 1" by simp
  have "[i..w - 1] = [i]" by (simp add: i)
  with 0 show ?case by (simp add: worker_range_def i)
next
  case (Suc k)
  then have i: "i < w - 1" by simp
  then have u: "[i..w - 1] = i # [i + 1..w - 1]" by (simp add: upto_rec1)
  have "contiguous ((i + 1) * chunk) (map (worker_range n w chunk) [i + 1..w - 1]) n"
    using Suc.prems Suc.hyps(2) i by (intro Suc.hyps(1)) simp_all
  moreover have "i * chunk < (i + 1) * chunk" using Suc.prems by (simp add: algebra_simps)
  ultimately show ?case using i by (simp add: u worker_range_def)
qed

lemma worker_ranges_contiguous:
  assumes "1 \<le> w" "w \<le> n"
  shows "contiguous 0 (worker_ranges n w) n"
proof -
  define chunk where "chunk = n div w"
  have cd: "c_div n w = chunk" using assms by (simp add: chunk_def c_div_pos)
  have "0 < n div w"
    using assms by (simp add: pos_imp_zdiv_pos_iff)
  then have c1: "1 \<le> chunk" by (simp add: chunk_def)
  have "w * chunk + n mod w = n" by (simp add: chunk_def)
  moreover have "0 \<le> n mod w" using assms by simp
  ultimately have "w * chunk \<le> n" by linarith
  then have "(w - 1) * chunk < n" using c1 by (simp add: algebra_simps)
  from worker_ranges_contiguous_aux [OF c1 this, of 0] assms show ?thesis
    by (simp add: worker_ranges_def cd)
qed

lemma workers_aggregate:
  assumes "1 \<le> w" "w \<le> n" "n \<le> 357913942"
  shows "run_workers (worker_ranges n w) =
           Some (Inr (map (\<lambda>(x, y). chain x (nat (y - x - 1))) (worker_ranges n w)))"
    and "aggregate (map (\<lambda>(x, y). chain x (nat (y - x - 1))) (worker_ranges n w)) =
           Inr (chain 0 (nat (n - 1)))"
proof -
  have c: "contiguous 0 (worker_ranges n w) n"
    using assms(1,2) by (rule worker_ranges_contiguous)
  from run_workers_contiguous [OF _ c assms(3)]
  show "run_workers (worker_ranges n w) =
           Some (Inr (map (\<lambda>(x, y). chain x (nat (y - x - 1))) (worker_ranges n w)))"
    by simp
  from aggregate_contiguous [OF c] assms
  show "aggregate (map (\<lambda>(x, y). chain x (nat (y - x - 1))) (worker_ranges n w)) =
           Inr (chain 0 (nat (n - 1)))"
    by simp
qed

text \<open>
  With more threads than terms \<^verbatim>\<open>chunk\<close> is 0: worker 0 gets the empty range
  \<open>[0, 0)\<close>, on which \<^verbatim>\<open>binary_split\<close> does not return.
\<close>

lemma worker_ranges_surplus:
  assumes "0 \<le> n" "n < w"
  shows "worker_ranges n w = (0, 0) # map (worker_range n w 0) [1..w - 1]"
proof -
  have "c_div n w = 0" using assms by (simp add: c_div_pos)
  moreover have "[0..w - 1] = 0 # [1..w - 1]" using assms by (simp add: upto_rec1)
  ultimately show ?thesis using assms by (simp add: worker_ranges_def worker_range_def)
qed

lemma run_workers_empty_first:
  "- 2147483648 \<le> b \<Longrightarrow> b \<le> 0 \<Longrightarrow> run_workers ((0, b) # rs) = None"
  by (simp add: binary_split_empty_diverges)

lemma run_workers_surplus:
  assumes "0 \<le> n" "n < w"
  shows "run_workers (worker_ranges n w) = None"
  unfolding worker_ranges_surplus [OF assms] by (rule run_workers_empty_first) simp_all

subsection \<open>The precision budget\<close>

lemma iterations_bounds:
  assumes "- 139 \<le> d" "d \<le> 536870811"
  shows "1 \<le> c_div d 14 + 10" and "c_div d 14 + 10 \<le> 38347925"
proof -
  show "1 \<le> c_div d 14 + 10"
  proof (cases "0 \<le> d")
    case True
    then have "c_div d 14 = d div 14" by (simp add: c_div_pos)
    with True show ?thesis by simp
  next
    case False
    then have "c_div d 14 = - (- d div 14)" by (simp add: c_div_def sgn_if)
    moreover have "- d div 14 \<le> 9" using assms by simp
    ultimately show ?thesis by simp
  qed
  show "c_div d 14 + 10 \<le> 38347925"
  proof (cases "0 \<le> d")
    case True
    then have "c_div d 14 = d div 14" by (simp add: c_div_pos)
    with assms show ?thesis by simp
  next
    case False
    then have "c_div d 14 = - (- d div 14)" by (simp add: c_div_def sgn_if)
    moreover have "0 \<le> - d div 14" using False by simp
    ultimately show ?thesis by simp
  qed
qed




lemma precision_budget_iterations:
  "precision_budget d = Inr bud \<Longrightarrow> iterations bud = term_count d"
  by (auto simp: precision_budget_def term_count_def split: if_splits)

lemma precision_budget_ok:
  assumes "- 139 \<le> d" "d \<le> 536870811"
  shows "precision_budget d =
     Inr \<lparr>prec = to_ulong ((d + 100) * 4), iterations = c_div d 14 + 10\<rparr>"
  using assms iterations_bounds [OF assms]
  by (simp add: precision_budget_def c_int_ok_def)

lemma compute_pqt_ok:
  assumes d: "- 139 \<le> decimals c" "decimals c \<le> 536870811"
    and w: "1 \<le> w" "w \<le> c_div (decimals c) 14 + 10"
  shows "compute_pqt (c\<lparr>num_threads := w\<rparr>) =
     Some (Inr (\<lparr>prec = to_ulong ((decimals c + 100) * 4),
                 iterations = c_div (decimals c) 14 + 10\<rparr>,
                chain 0 (nat (c_div (decimals c) 14 + 10 - 1))))"
proof -
  define n where "n = c_div (decimals c) 14 + 10"
  have n: "1 \<le> n" "n \<le> 357913942"
    using iterations_bounds [OF d] by (simp_all add: n_def)
  have s: "binary_split 0 n = Some (Inr (chain 0 (nat (n - 1))))"
    using binary_split_chain [of 0 n] n by simp
  note p = workers_aggregate [OF w(1) w(2) [folded n_def] n(2)]
  show ?thesis
    unfolding compute_pqt_def term_count_def
    by (simp add: precision_budget_ok [OF d] n_def [symmetric] s p del: chain.simps)
qed

lemma compute_pqt_single_thread:
  "num_threads c = 1 \<Longrightarrow>
   compute_pqt c =
     (case binary_split 0 (c_div (decimals c) 14 + 10) of
        None \<Rightarrow> None
      | Some (Inl e) \<Rightarrow> Some (Inl e)
      | Some (Inr final) \<Rightarrow>
          (case precision_budget (decimals c) of
             Inl e \<Rightarrow> Some (Inl e)
           | Inr bud \<Rightarrow> Some (Inr (bud, final))))"
  by (simp add: compute_pqt_def term_count_def)

subsection \<open>Thread counts up to the number of terms give one result\<close>

text \<open>
  For a digit count \<open>d\<close> with \<open>0 \<le> d \<le> 536870811\<close> and thread counts \<open>w1\<close>, \<open>w2\<close>
  between 1 and the number of terms \<open>N = d / 14 + 10\<close>: the workers on the \<open>w1\<close>
  sub-ranges all return, and their triples folded from the left give the triple of
  \<^verbatim>\<open>binary_split(0, N)\<close>; the runs with \<open>w1\<close>, with \<open>w2\<close> and with one thread end with
  the same budget and the same aggregate triple, and print the same string.
\<close>

theorem parallel_equals_single:
  "0 \<le> decimals c \<Longrightarrow> decimals c \<le> 536870811 \<Longrightarrow>
   1 \<le> w1 \<Longrightarrow> w1 \<le> c_div (decimals c) 14 + 10 \<Longrightarrow>
   1 \<le> w2 \<Longrightarrow> w2 \<le> c_div (decimals c) 14 + 10 \<Longrightarrow>
   (\<exists>rs final.
      run_workers (worker_ranges (c_div (decimals c) 14 + 10) w1) = Some (Inr rs) \<and>
      aggregate rs = Inr final \<and>
      binary_split 0 (c_div (decimals c) 14 + 10) = Some (Inr final)) \<and>
   (\<exists>bud final.
      compute_pqt (c\<lparr>num_threads := w1\<rparr>) = Some (Inr (bud, final)) \<and>
      compute_pqt (c\<lparr>num_threads := w2\<rparr>) = Some (Inr (bud, final)) \<and>
      compute_pqt (c\<lparr>num_threads := 1\<rparr>) = Some (Inr (bud, final))) \<and>
   (\<exists>out.
      main_output render (c\<lparr>num_threads := w1\<rparr>) = Some (Inr out) \<and>
      main_output render (c\<lparr>num_threads := w2\<rparr>) = Some (Inr out) \<and>
      main_output render (c\<lparr>num_threads := 1\<rparr>) = Some (Inr out))"
proof -
  assume d0: "0 \<le> decimals c" and d2: "decimals c \<le> 536870811"
    and w1: "1 \<le> w1" "w1 \<le> c_div (decimals c) 14 + 10"
    and w2: "1 \<le> w2" "w2 \<le> c_div (decimals c) 14 + 10"
  from d0 d2 have d: "- 139 \<le> decimals c" "decimals c \<le> 536870811" by simp_all
  define n where "n = c_div (decimals c) 14 + 10"
  have n: "1 \<le> n" "n \<le> 357913942"
    using iterations_bounds [OF d] by (simp_all add: n_def)
  have s: "binary_split 0 n = Some (Inr (chain 0 (nat (n - 1))))"
    using binary_split_chain [of 0 n] n by simp
  note p = workers_aggregate [OF w1(1) w1(2) [folded n_def] n(2)]
  have A: "\<exists>rs final.
      run_workers (worker_ranges n w1) = Some (Inr rs) \<and>
      aggregate rs = Inr final \<and> binary_split 0 n = Some (Inr final)"
    using p s by blast
  have one: "1 \<le> c_div (decimals c) 14 + 10" using n by (simp add: n_def)
  note c1 = compute_pqt_ok [OF d w1] and c2 = compute_pqt_ok [OF d w2]
    and c3 = compute_pqt_ok [OF d order_refl one]
  have B: "\<exists>bud final.
      compute_pqt (c\<lparr>num_threads := w1\<rparr>) = Some (Inr (bud, final)) \<and>
      compute_pqt (c\<lparr>num_threads := w2\<rparr>) = Some (Inr (bud, final)) \<and>
      compute_pqt (c\<lparr>num_threads := 1\<rparr>) = Some (Inr (bud, final))"
    using c1 c2 c3 by blast
  have C: "\<exists>out.
      main_output render (c\<lparr>num_threads := w1\<rparr>) = Some (Inr out) \<and>
      main_output render (c\<lparr>num_threads := w2\<rparr>) = Some (Inr out) \<and>
      main_output render (c\<lparr>num_threads := 1\<rparr>) = Some (Inr out)"
    unfolding main_output_def by (simp add: c1 c2 c3 del: chain.simps)
  from A B C show ?thesis unfolding n_def by blast
qed

theorem parallel_equals_single_witness:
  "\<forall>render.
     main_output render
       \<lparr>decimals = 100, num_threads = 8, show_stats = False, quiet_mode = False\<rparr> =
     main_output render
       \<lparr>decimals = 100, num_threads = 1, show_stats = False, quiet_mode = False\<rparr> \<and>
     main_output render
       \<lparr>decimals = 100, num_threads = 8, show_stats = False, quiet_mode = False\<rparr> \<noteq> None"
proof
  fix render
  have n: "c_div 100 14 + 10 = 17" by (simp add: c_div_def)
  from parallel_equals_single
    [of "\<lparr>decimals = 100, num_threads = 1, show_stats = False, quiet_mode = False\<rparr>" 8 1 render]
  show "main_output render
       \<lparr>decimals = 100, num_threads = 8, show_stats = False, quiet_mode = False\<rparr> =
     main_output render
       \<lparr>decimals = 100, num_threads = 1, show_stats = False, quiet_mode = False\<rparr> \<and>
     main_output render
       \<lparr>decimals = 100, num_threads = 8, show_stats = False, quiet_mode = False\<rparr> \<noteq> None"
    by (auto simp: n)
qed

section \<open>The claims\<close>

text \<open>
  Claim C1 (as amended). For every range \<open>[a, b)\<close> with \<open>0 \<le> a\<close>, \<open>b - a \<ge> 2\<close> and
  \<open>b \<le> 357913942\<close>, \<^verbatim>\<open>binary_split\<close> with \<open>m = (a + b) div 2\<close> obtains a triple
  \<open>left\<close> from \<open>[a, m)\<close> and a triple \<open>right\<close> from \<open>[m, b)\<close> and returns
  \<open>P = P left * P right\<close>, \<open>Q = Q left * Q right\<close> and
  \<open>T = Q right * T left + P left * T right\<close>, in this pairing of the operands.
\<close>

theorem binary_split_recursive_case:
  "0 \<le> a \<Longrightarrow> 2 \<le> b - a \<Longrightarrow> b \<le> 357913942 \<Longrightarrow>
   \<exists>left right.
     binary_split a ((a + b) div 2) = Some (Inr left) \<and>
     binary_split ((a + b) div 2) b = Some (Inr right) \<and>
     binary_split a b =
       Some (Inr \<lparr>P = P left * P right,
                  Q = Q left * Q right,
                  T = Q right * T left + P left * T right\<rparr>)"
proof -
  assume h: "0 \<le> a" "2 \<le> b - a" "b \<le> 357913942"
  define m where "m = (a + b) div 2"
  from h have am: "a < m" and mb: "m < b" and m0: "0 \<le> m"
    unfolding m_def by linarith+
  have cm: "c_div (a + b) 2 = m"
    using h by (simp add: m_def c_div_2_nonneg)
  have l: "binary_split a m = Some (Inr (chain a (nat (m - a - 1))))"
    using h am mb by (intro binary_split_chain) simp_all
  have r: "binary_split m b = Some (Inr (chain m (nat (b - m - 1))))"
    using h am mb m0 by (intro binary_split_chain) simp_all
  have ok: "c_int_ok (b - a)" "c_int_ok (a + b)" "b - a \<noteq> 1"
    using h by (simp_all add: c_int_ok_def)
  have "binary_split a b =
        Some (Inr (binary_split_combine (chain a (nat (m - a - 1))) (chain m (nat (b - m - 1)))))"
    by (subst binary_split.simps) (simp add: ok cm l r del: chain.simps)
  with l r show ?thesis
    unfolding m_def [symmetric] binary_split_combine_def by blast
qed

text \<open>
  On \<open>[0, 2)\<close> the halves are the terms 0 and 1, with triples \<open>(1, 1, 13591409)\<close> and
  \<open>(- 5, 10939058860032000, - 2793657715)\<close>. The other pairing of the operands of
  \<open>T\<close>, \<open>Q left * T right + P right * T left\<close>, would give a different number.
\<close>

theorem binary_split_recursive_case_witness:
  "binary_split 0 2 =
     Some (Inr \<lparr>P = 1 * - 5,
                Q = 1 * 10939058860032000,
                T = 10939058860032000 * 13591409 + 1 * - 2793657715\<rparr>) \<and>
   (10939058860032000 * 13591409 + 1 * - 2793657715 :: int) \<noteq>
     1 * - 2793657715 + - 5 * 13591409"
  using binary_split_recursive_case [of 0 2] by (simp add: binary_split_0_1 binary_split_1_2)

text \<open>
  Beyond the bound the claim fails: the right half of \<open>[357913941, 357913943)\<close> is the
  term of index 357913942, whose factor \<^verbatim>\<open>6 * a\<close> exceeds \<^verbatim>\<open>INT_MAX\<close>; and for
  \<open>[2147483645, 2147483647)\<close> the sum \<^verbatim>\<open>a + b\<close> of the midpoint does.
\<close>

theorem binary_split_recursive_case_counterexample:
  "binary_split 357913941 357913943 = Some (Inl SignedOverflow) \<and>
   binary_split 2147483645 2147483647 = Some (Inl SignedOverflow)"
proof -
  have r: "binary_split 357913942 357913943 = Some (Inl SignedOverflow)"
    by (subst binary_split.simps) (simp add: c_int_ok_def binary_split_leaf_def)
  have l: "\<exists>t. binary_split 357913941 357913942 = Some (Inr t)"
    using binary_split_chain [of 357913941 357913942] by simp
  have "binary_split 357913941 357913943 = Some (Inl SignedOverflow)"
    using l
    by (subst binary_split.simps) (auto simp add: c_int_ok_def c_div_def r)
  moreover have "binary_split 2147483645 2147483647 = Some (Inl SignedOverflow)"
    by (subst binary_split.simps) (simp add: c_int_ok_def)
  ultimately show ?thesis by simp
qed

text \<open>
  Claim C2 (as amended). For every index \<open>k\<close> with \<open>0 \<le> k \<le> 357913941\<close> the range
  \<open>[k, k + 1)\<close> yields: for \<open>k = 0\<close>, \<open>P = 1\<close> and \<open>Q = 1\<close>; for \<open>k \<ge> 1\<close>,
  \<open>P = - (6k - 5)(2k - 1)(6k - 1)\<close> and \<open>Q = 640320^3 * k^3 div 24\<close>; and in both cases
  \<open>T = P * (13591409 + 545140134 * k)\<close>.
\<close>

theorem binary_split_leaf_value:
  "0 \<le> k \<Longrightarrow> k \<le> 357913941 \<Longrightarrow>
   binary_split k (k + 1) =
     Some (Inr
       \<lparr>P = (if k = 0 then 1 else - ((6 * k - 5) * (2 * k - 1) * (6 * k - 1))),
        Q = (if k = 0 then 1 else 640320 ^ 3 * k ^ 3 div 24),
        T = (if k = 0 then 1 else - ((6 * k - 5) * (2 * k - 1) * (6 * k - 1))) *
            (13591409 + 545140134 * k)\<rparr>)"
proof -
  assume k: "0 \<le> k" "k \<le> 357913941"
  have "binary_split k (k + 1) = Some (Inr (leaf_pqt k))"
    using k by (subst binary_split.simps) (simp add: c_int_ok_def binary_split_leaf_ok)
  moreover have "leaf_pqt k =
       \<lparr>P = (if k = 0 then 1 else - ((6 * k - 5) * (2 * k - 1) * (6 * k - 1))),
        Q = (if k = 0 then 1 else 640320 ^ 3 * k ^ 3 div 24),
        T = (if k = 0 then 1 else - ((6 * k - 5) * (2 * k - 1) * (6 * k - 1))) *
            (13591409 + 545140134 * k)\<rparr>"
  proof (cases "k = 0")
    case True
    then show ?thesis by (simp add: leaf_pqt_0)
  next
    case False
    with k have "1 \<le> k" by simp
    from leaf_pqt_pos [OF this k(2)] False show ?thesis by simp
  qed
  ultimately show ?thesis by simp
qed

theorem binary_split_leaf_value_witness:
  "binary_split 2 3 =
     Some (Inr \<lparr>P = - 231, Q = 87512470880256000, T = - 254994357387\<rparr>) \<and>
   binary_split 0 1 = Some (Inr \<lparr>P = 1, Q = 1, T = 13591409\<rparr>)"
  using binary_split_leaf_value [of 2] binary_split_leaf_value [of 0] by simp

text \<open>
  At \<open>k = 357913942\<close> the factor \<^verbatim>\<open>6 * a\<close> is 2147483652, above \<^verbatim>\<open>INT_MAX\<close>: the
  \<^verbatim>\<open>int\<close> expression \<^verbatim>\<open>6 * a - 5\<close> overflows before GMP sees it.
\<close>

theorem binary_split_leaf_counterexample:
  "binary_split 357913942 357913943 = Some (Inl SignedOverflow)"
  by (subst binary_split.simps) (simp add: c_int_ok_def binary_split_leaf_def)

text \<open>
  Claim C3 (as amended). For all \<open>0 \<le> a < m < b \<le> 357913942\<close>, \<^verbatim>\<open>binary_split\<close> returns
  a triple \<open>l\<close> on \<open>[a, m)\<close>, a triple \<open>r\<close> on \<open>[m, b)\<close>, and on \<open>[a, b)\<close> the triple that
  the combination rule makes of \<open>l\<close> and \<open>r\<close>: the result on \<open>[a, b)\<close> does not depend on
  the split point.
\<close>

theorem binary_split_split_point:
  "0 \<le> a \<Longrightarrow> a < m \<Longrightarrow> m < b \<Longrightarrow> b \<le> 357913942 \<Longrightarrow>
   \<exists>l r. binary_split a m = Some (Inr l) \<and>
         binary_split m b = Some (Inr r) \<and>
         binary_split a b =
           Some (Inr \<lparr>P = P l * P r, Q = Q l * Q r, T = Q r * T l + P l * T r\<rparr>)"
proof -
  assume h: "0 \<le> a" "a < m" "m < b" "b \<le> 357913942"
  have l: "binary_split a m = Some (Inr (chain a (nat (m - a - 1))))"
    using h by (intro binary_split_chain) simp_all
  have r: "binary_split m b = Some (Inr (chain m (nat (b - m - 1))))"
    using h by (intro binary_split_chain) simp_all
  have w: "binary_split a b = Some (Inr (chain a (nat (b - a - 1))))"
    using h by (intro binary_split_chain) simp_all
  have n: "nat (b - a - 1) = nat (m - a - 1) + nat (b - m - 1) + 1"
    using h by simp
  have m': "a + int (nat (m - a - 1)) + 1 = m" using h by simp
  have "chain a (nat (b - a - 1)) =
        binary_split_combine (chain a (nat (m - a - 1))) (chain m (nat (b - m - 1)))"
    using chain_append [of a "nat (m - a - 1)" "nat (b - m - 1)"] by (simp only: n m')
  with l r w show ?thesis
    unfolding binary_split_combine_def by simp
qed

text \<open>
  The range \<open>[0, 3)\<close> is split by the program at 1; the theorem gives the same triple
  from the split at 2.
\<close>

theorem binary_split_split_point_witness:
  "binary_split 0 3 =
     Some (Inr \<lparr>P = - 5 * - 231,
                Q = 10939058860032000 * 87512470880256000,
                T = 87512470880256000 * 148677223041765871430285 + - 5 * - 254994357387\<rparr>)"
  using binary_split_split_point [of 0 2 3] by (simp add: binary_split_0_2 binary_split_2_3)

text \<open>
  For \<open>a = 1073741823\<close>, \<open>m = 1073741824\<close>, \<open>b = 1073741825\<close> the call on \<open>[a, b)\<close> adds
  \<open>a + b = 2^31\<close>, above \<^verbatim>\<open>INT_MAX\<close>, and yields no triple, whatever the calls on
  \<open>[a, m)\<close> and \<open>[m, b)\<close> yield: the compiled program goes on with the sum wrapped to
  \<open>- 2^31\<close>, a midpoint \<open>- 2^30\<close> below \<open>a\<close>, and calls itself without end. The bound of
  the theorem is lower: from \<open>b = 357913943\<close> on a base case overflows \<^verbatim>\<open>6 * a\<close>, as
  in \<open>[357913940, 357913943)\<close>.
\<close>

theorem binary_split_split_point_counterexample:
  "binary_split 1073741823 1073741825 = Some (Inl SignedOverflow) \<and>
   binary_split 357913940 357913943 = Some (Inl SignedOverflow)"
proof -
  have o: "binary_split 1073741823 1073741825 = Some (Inl SignedOverflow)"
    by (subst binary_split.simps) (simp add: c_int_ok_def)
  have r: "binary_split 357913942 357913943 = Some (Inl SignedOverflow)"
    by (subst binary_split.simps) (simp add: c_int_ok_def binary_split_leaf_def)
  have l: "\<exists>t. binary_split 357913941 357913942 = Some (Inr t)"
    using binary_split_chain [of 357913941 357913942] by simp
  have m: "binary_split 357913941 357913943 = Some (Inl SignedOverflow)"
    using l
    by (subst binary_split.simps) (auto simp add: c_int_ok_def c_div_def r)
  have l': "\<exists>t. binary_split 357913940 357913941 = Some (Inr t)"
    using binary_split_chain [of 357913940 357913941] by simp
  have "binary_split 357913940 357913943 = Some (Inl SignedOverflow)"
    using l'
    by (subst binary_split.simps) (auto simp add: c_int_ok_def c_div_def m)
  with o show ?thesis by simp
qed

text \<open>
  Claim C4 (the code at a failing input). A request for 0 digits needs 10 terms. With
  one thread the run returns the aggregate triple of \<^verbatim>\<open>binary_split(0, 10)\<close> and
  prints the string GMP makes of its \<open>Q\<close> and \<open>T\<close> at 400 bits. With 11 threads
  \<^verbatim>\<open>chunk\<close> is \<open>10 / 11 = 0\<close>, worker 0 is handed the empty range \<open>[0, 0)\<close>, and the
  run returns nothing and prints nothing: the two thread counts do not give the
  same output.
\<close>

theorem surplus_threads_no_output:
  "compute_pqt \<lparr>decimals = 0, num_threads = 11, show_stats = False, quiet_mode = False\<rparr> =
     None \<and>
   compute_pqt \<lparr>decimals = 0, num_threads = 1, show_stats = False, quiet_mode = False\<rparr> =
     Some (Inr (\<lparr>prec = 400, iterations = 10\<rparr>,
       \<lparr>P = - 8024797003932097564420573453125,
        Q = 107178760704715626887394872971909911452195426185473836730003250925262264909073859395675310800390791312138105206517986332185936789504000000000000000000000000000000,
        T = 1456710372850890942005701020920392054773645199218436303677667614634917993405445094226974727072814699315138250435961105659872753026008905747299184781224070523531388828125\<rparr>)) \<and>
   (\<forall>render.
      main_output render
        \<lparr>decimals = 0, num_threads = 11, show_stats = False, quiet_mode = False\<rparr> = None \<and>
      main_output render
        \<lparr>decimals = 0, num_threads = 1, show_stats = False, quiet_mode = False\<rparr> =
        Some (Inr (Some (render 400 0
          107178760704715626887394872971909911452195426185473836730003250925262264909073859395675310800390791312138105206517986332185936789504000000000000000000000000000000
          1456710372850890942005701020920392054773645199218436303677667614634917993405445094226974727072814699315138250435961105659872753026008905747299184781224070523531388828125))))"
proof -
  have b: "precision_budget 0 = Inr \<lparr>prec = 400, iterations = 10\<rparr>"
    by (simp add: precision_budget_def c_int_ok_def c_div_def to_ulong_def)
  have n: "term_count 0 = 10" by (simp add: term_count_def c_div_def)
  have w: "run_workers (worker_ranges 10 11) = None"
    by (rule run_workers_surplus) simp_all
  have "chain 0 9 =
       \<lparr>P = - 8024797003932097564420573453125,
        Q = 107178760704715626887394872971909911452195426185473836730003250925262264909073859395675310800390791312138105206517986332185936789504000000000000000000000000000000,
        T = 1456710372850890942005701020920392054773645199218436303677667614634917993405445094226974727072814699315138250435961105659872753026008905747299184781224070523531388828125\<rparr>"
    by (simp add: eval_nat_numeral binary_split_combine_def leaf_pqt_def leaf_P_def leaf_T_def
        leaf_Q_numer_def to_ulong_def)
  with binary_split_chain [of 0 10] have s: "binary_split 0 10 =
     Some (Inr
       \<lparr>P = - 8024797003932097564420573453125,
        Q = 107178760704715626887394872971909911452195426185473836730003250925262264909073859395675310800390791312138105206517986332185936789504000000000000000000000000000000,
        T = 1456710372850890942005701020920392054773645199218436303677667614634917993405445094226974727072814699315138250435961105659872753026008905747299184781224070523531388828125\<rparr>)"
    by simp
  have c11: "compute_pqt
      \<lparr>decimals = 0, num_threads = 11, show_stats = False, quiet_mode = False\<rparr> = None"
    by (simp add: compute_pqt_def n w)
  have c1: "compute_pqt
      \<lparr>decimals = 0, num_threads = 1, show_stats = False, quiet_mode = False\<rparr> =
     Some (Inr (\<lparr>prec = 400, iterations = 10\<rparr>,
       \<lparr>P = - 8024797003932097564420573453125,
        Q = 107178760704715626887394872971909911452195426185473836730003250925262264909073859395675310800390791312138105206517986332185936789504000000000000000000000000000000,
        T = 1456710372850890942005701020920392054773645199218436303677667614634917993405445094226974727072814699315138250435961105659872753026008905747299184781224070523531388828125\<rparr>))"
    by (simp add: compute_pqt_def n b s)
  show ?thesis
    unfolding main_output_def c11 c1 by simp
qed

text \<open>
  Claim C5 (as amended). For every range with \<open>0 \<le> a < b \<le> 357913942\<close>,
  \<^verbatim>\<open>binary_split\<close> returns a triple (it neither runs forever nor faults); and when
  the range has at least two terms, both recursive calls are on ranges that are
  non-empty and strictly narrower than \<open>[a, b)\<close>.
\<close>

theorem binary_split_total:
  "0 \<le> a \<Longrightarrow> a < b \<Longrightarrow> b \<le> 357913942 \<Longrightarrow>
   (\<exists>t. binary_split a b = Some (Inr t)) \<and>
   (2 \<le> b - a \<longrightarrow>
      0 < c_div (a + b) 2 - a \<and> c_div (a + b) 2 - a < b - a \<and>
      0 < b - c_div (a + b) 2 \<and> b - c_div (a + b) 2 < b - a)"
proof -
  assume h: "0 \<le> a" "a < b" "b \<le> 357913942"
  have "c_div (a + b) 2 = (a + b) div 2"
    using h by (simp add: c_div_2_nonneg)
  moreover have "2 \<le> b - a \<longrightarrow>
      0 < (a + b) div 2 - a \<and> (a + b) div 2 - a < b - a \<and>
      0 < b - (a + b) div 2 \<and> b - (a + b) div 2 < b - a"
    by linarith
  ultimately show ?thesis
    using binary_split_chain [OF h] by simp
qed

theorem binary_split_total_witness:
  "(\<exists>t. binary_split 3 8 = Some (Inr t)) \<and>
   0 < c_div (3 + 8) 2 - 3 \<and> c_div (3 + 8) 2 - 3 < 8 - 3 \<and>
   0 < 8 - c_div (3 + 8) 2 \<and> 8 - c_div (3 + 8) 2 < 8 - 3"
  using binary_split_total [of 3 8] by simp

text \<open>
  Beyond the bound there are error states: the term of index 357913942 overflows
  \<^verbatim>\<open>6 * a\<close>, and the range \<open>[1073741824, 2147483647)\<close> overflows \<^verbatim>\<open>a + b\<close>.
\<close>

theorem binary_split_total_counterexample:
  "binary_split 357913942 357913943 = Some (Inl SignedOverflow) \<and>
   binary_split 1073741824 2147483647 = Some (Inl SignedOverflow)"
proof -
  have "binary_split 357913942 357913943 = Some (Inl SignedOverflow)"
    by (subst binary_split.simps) (simp add: c_int_ok_def binary_split_leaf_def)
  moreover have "binary_split 1073741824 2147483647 = Some (Inl SignedOverflow)"
    by (subst binary_split.simps) (simp add: c_int_ok_def)
  ultimately show ?thesis by simp
qed

text \<open>
  Claim C6 (the code at a failing input). The default 1000 digits need 81 terms. With
  100 threads \<^verbatim>\<open>chunk\<close> is \<open>81 / 100 = 0\<close>: worker 0 is handed the empty range
  \<open>[0, 0)\<close>, its call of \<^verbatim>\<open>binary_split\<close> does not return, and neither does the run.
\<close>

theorem worker_ranges_empty_range:
  "c_div 1000 14 + 10 = 81 \<and>
   worker_ranges 81 100 ! 0 = (0, 0) \<and>
   run_workers (worker_ranges 81 100) = None \<and>
   compute_pqt \<lparr>decimals = 1000, num_threads = 100, show_stats = False, quiet_mode = False\<rparr> = None"
proof -
  have b: "precision_budget 1000 = Inr \<lparr>prec = 4400, iterations = 81\<rparr>"
    by (simp add: precision_budget_def c_int_ok_def c_div_def to_ulong_def)
  have w: "worker_ranges 81 100 = (0, 0) # map (worker_range 81 100 0) [1..100 - 1]"
    by (rule worker_ranges_surplus) simp_all
  have r: "run_workers (worker_ranges 81 100) = None"
    unfolding w by (rule run_workers_empty_first) simp_all
  have "c_div 1000 14 + 10 = 81" by (simp add: c_div_def)
  moreover have "worker_ranges 81 100 ! 0 = (0, 0)" unfolding w by simp
  moreover have "compute_pqt \<lparr>decimals = 1000, num_threads = 100, show_stats = False,
      quiet_mode = False\<rparr> = None"
    by (simp add: compute_pqt_def term_count_def c_div_def r)
  ultimately show ?thesis using r by simp
qed

text \<open>
  Claim C7. For every index \<open>k\<close> the integer \<open>640320^3 * k^3\<close> is a multiple of 24, and so
  is the dividend \<^verbatim>\<open>mpz_divexact_ui\<close> receives in the base case (the cube of the
  index as the \<^verbatim>\<open>unsigned long\<close> it is passed as, times \<open>640320\<close> three times): the
  division by 24 is exact, multiplying the quotient by 24 gives the dividend back,
  and the base case never stops with \<open>InexactDivision\<close>.
\<close>

theorem leaf_division_exact:
  "24 dvd (640320::int) ^ 3 * k ^ 3 \<and>
   mpz_divexact_ui (640320 ^ 3 * k ^ 3) 24 = Inr (640320 ^ 3 * k ^ 3 div 24) \<and>
   24 * (640320 ^ 3 * k ^ 3 div 24) = 640320 ^ 3 * k ^ 3 \<and>
   mpz_divexact_ui (leaf_Q_numer k) 24 = Inr (leaf_Q_numer k div 24) \<and>
   24 * (leaf_Q_numer k div 24) = leaf_Q_numer k \<and>
   leaf_Q k \<noteq> Inl InexactDivision \<and>
   binary_split_leaf k \<noteq> Inl InexactDivision"
proof -
  have "(24::int) dvd 640320 ^ 3" by simp
  then have d: "24 dvd (640320::int) ^ 3 * k ^ 3" by (rule dvd_mult2)
  have n: "24 dvd leaf_Q_numer k" by (rule leaf_Q_numer_dvd)
  have q: "leaf_Q k \<noteq> Inl InexactDivision"
    using n by (simp add: leaf_Q_def mpz_divexact_ui_def)
  have l: "binary_split_leaf k \<noteq> Inl InexactDivision"
    using n by (simp add: binary_split_leaf_def leaf_Q_def mpz_divexact_ui_def)
  from d n q l show ?thesis
    by (simp add: mpz_divexact_ui_def)
qed

theorem leaf_division_exact_witness:
  "mpz_divexact_ui (640320 ^ 3 * 2 ^ 3) 24 = Inr 87512470880256000 \<and>
   24 * (87512470880256000::int) = 640320 ^ 3 * 2 ^ 3"
  using leaf_division_exact [of 2] by simp

text \<open>
  Claim C8 (as amended). For every range with \<open>0 < a < b \<le> 357913942\<close> the triple of
  \<^verbatim>\<open>binary_split\<close> has \<open>Q > 0\<close> and \<open>T < 0\<close>, and the sign of \<open>P\<close> alternates with the
  number of terms: \<open>P < 0\<close> when \<open>b - a\<close> is odd, \<open>P > 0\<close> when it is even.
\<close>

theorem binary_split_signs:
  "0 < a \<Longrightarrow> a < b \<Longrightarrow> b \<le> 357913942 \<Longrightarrow>
   \<exists>t. binary_split a b = Some (Inr t) \<and> 0 < Q t \<and> T t < 0 \<and>
       (odd (b - a) \<longrightarrow> P t < 0) \<and> (even (b - a) \<longrightarrow> 0 < P t)"
proof -
  assume h: "0 < a" "a < b" "b \<le> 357913942"
  define n where "n = nat (b - a - 1)"
  have b: "b - a = int n + 1" using h by (simp add: n_def)
  have r: "1 \<le> a" "a + int n \<le> 357913941" using h by (simp_all add: n_def)
  have "binary_split a b = Some (Inr (chain a n))"
    using h unfolding n_def by (intro binary_split_chain) simp_all
  moreover note chain_signs [OF r] chain_T_neg [OF r]
  ultimately show ?thesis by (simp add: b)
qed

theorem binary_split_signs_witness:
  "\<exists>t. binary_split 1 3 = Some (Inr t) \<and> 0 < Q t \<and> T t < 0 \<and> 0 < P t"
  using binary_split_signs [of 1 3] by simp

text \<open>
  The single term of index 1 has \<open>P = - 5\<close>, not positive; the range \<open>[1, 3)\<close> has
  \<open>P = 1155\<close> and a negative \<open>T\<close>, of the other sign. And the range
  \<open>[357913942, 357913944)\<close>, beyond the bound, yields no triple.
\<close>

theorem binary_split_signs_counterexample:
  "binary_split 1 2 =
     Some (Inr \<lparr>P = - 5, Q = 10939058860032000, T = - 2793657715\<rparr>) \<and>
   \<not> (0::int) < - 5 \<and>
   binary_split 1 3 =
     Some (Inr \<lparr>P = 1155, Q = 957304069945956794936328192000000,
                T = - 244479889433338740603253065\<rparr>) \<and>
   sgn (- 244479889433338740603253065 :: int) \<noteq> sgn 1155 \<and>
   binary_split 357913942 357913944 = Some (Inl SignedOverflow)"
proof -
  have "binary_split 357913942 357913943 = Some (Inl SignedOverflow)"
    by (subst binary_split.simps) (simp add: c_int_ok_def binary_split_leaf_def)
  then have "binary_split 357913942 357913944 = Some (Inl SignedOverflow)"
    by (subst binary_split.simps) (simp add: c_int_ok_def c_div_def)
  then show ?thesis
    by (simp add: binary_split_1_2 binary_split_1_3)
qed

text \<open>
  Claim C9 (as amended). For a requested decimal count \<open>d\<close> with
  \<open>- 100 \<le> d \<le> 536870811\<close>, \<^verbatim>\<open>main\<close> derives the precision \<open>(d + 100) * 4\<close> bits and
  the number of terms \<open>d / 14 + 10\<close>, the quotient truncated towards zero, which is
  \<open>floor (d / 14) + 10\<close> when \<open>d \<ge> 0\<close>; a run with one thread calls
  \<^verbatim>\<open>binary_split\<close> on exactly these many terms and ends with this same budget.
\<close>

theorem precision_budget_value:
  "- 100 \<le> d \<Longrightarrow> d \<le> 536870811 \<Longrightarrow>
   precision_budget d = Inr \<lparr>prec = (d + 100) * 4, iterations = c_div d 14 + 10\<rparr> \<and>
   (0 \<le> d \<longrightarrow> c_div d 14 + 10 = d div 14 + 10) \<and>
   (num_threads c = 1 \<and> decimals c = d \<longrightarrow>
      compute_pqt c =
        (case binary_split 0 (c_div d 14 + 10) of
           None \<Rightarrow> None
         | Some (Inl e) \<Rightarrow> Some (Inl e)
         | Some (Inr final) \<Rightarrow>
             Some (Inr (\<lparr>prec = (d + 100) * 4, iterations = c_div d 14 + 10\<rparr>, final))))"
proof -
  assume d: "- 100 \<le> d" "d \<le> 536870811"
  define p where "p = (d + 100) * 4"
  define n where "n = c_div d 14 + 10"
  have "to_ulong p = p"
    using d unfolding p_def by (intro to_ulong_id) simp_all
  moreover from d have "- 139 \<le> d" by simp
  ultimately have b: "precision_budget d = Inr \<lparr>prec = p, iterations = n\<rparr>"
    using precision_budget_ok [of d] d(2) by (simp add: p_def n_def)
  have f: "0 \<le> d \<longrightarrow> n = d div 14 + 10" by (simp add: n_def c_div_pos)
  have r: "num_threads c = 1 \<and> decimals c = d \<longrightarrow>
      compute_pqt c =
        (case binary_split 0 n of
           None \<Rightarrow> None
         | Some (Inl e) \<Rightarrow> Some (Inl e)
         | Some (Inr final) \<Rightarrow> Some (Inr (\<lparr>prec = p, iterations = n\<rparr>, final)))"
    by (auto simp: compute_pqt_single_thread n_def b split: option.split sum.split)
  from b f r show ?thesis unfolding p_def n_def by blast
qed

theorem precision_budget_value_witness:
  "precision_budget 1000 = Inr \<lparr>prec = 4400, iterations = 81\<rparr> \<and>
   (1000::int) div 14 + 10 = 81"
  using precision_budget_value [of 1000 default_config] by (simp add: c_div_def)

text \<open>
  For \<open>d = - 1\<close>, which \<^verbatim>\<open>-d -1\<close> requests, the program takes 10 terms; the floor of
  \<open>- 1 / 14\<close> plus 10 is 9. For \<open>d = - 101\<close> the precision expression is \<open>- 4\<close>, which
  \<^verbatim>\<open>mpf_set_default_prec\<close> receives as \<open>2^64 - 4\<close>; for \<open>d = 536870812\<close> it overflows.
\<close>

theorem precision_budget_value_counterexample:
  "precision_budget (- 1) = Inr \<lparr>prec = 396, iterations = 10\<rparr> \<and>
   (- 1 :: int) div 14 + 10 = 9 \<and>
   precision_budget (- 101) = Inr \<lparr>prec = 18446744073709551612, iterations = 3\<rparr> \<and>
   precision_budget 536870812 = Inl SignedOverflow"
  by (simp add: precision_budget_def c_int_ok_def c_div_def to_ulong_def)



end
